theory Spec2Isabelle
  imports Complex_Main
begin

section \<open>The Baxter gripper action server\<close>

text \<open>
  A shallow embedding of \<^verbatim>\<open>baxter_interface/src/gripper_action/gripper_action.py\<close>,
  class \<^verbatim>\<open>GripperActionServer\<close>.

  \<^item> Python floats are modelled as \<open>real\<close>: the code only compares them, subtracts two of
    them and takes \<^verbatim>\<open>fabs\<close>; rounding and NaN are outside the model.
  \<^item> The gripper (\<^verbatim>\<open>baxter_interface.Gripper\<close>), the action server
    (\<^verbatim>\<open>actionlib.SimpleActionServer\<close>), the clock and the configuration storage are
    collaborators outside this file. What they report is an input of the model: a
    \<open>gripper\<close> record is one reading of the actuator, a \<open>frame\<close> is what one
    evaluation of the loop condition and the loop body that follows it observe. What the
    server asks of them is appended to the field \<open>calls\<close> of the server state, in
    program order.
  \<^item> A dictionary is a map; indexing a missing key raises \<^verbatim>\<open>KeyError\<close>, which is a
    value \<open>Inl\<close> carrying the state the object is left in.
  \<^item> The \<^verbatim>\<open>while\<close> loop may run forever. It is a recursion over the list of frames
    observed; when the list is used up while the loop is still running the value is
    \<open>None\<close>.
\<close>

subsection \<open>Data\<close>

datatype error = KeyError string

text \<open>\<^verbatim>\<open>GripperCommandFeedback\<close> and \<^verbatim>\<open>GripperCommandResult\<close> have the same four fields.\<close>

record gripper_command_feedback =
  fb_position :: real
  fb_effort :: real
  fb_stalled :: bool
  fb_reached_goal :: bool

text \<open>\<^verbatim>\<open>goal.command.position\<close> and \<^verbatim>\<open>goal.command.max_effort\<close>.\<close>

record gripper_command =
  cmd_position :: real
  cmd_max_effort :: real

record gripper_command_goal =
  command :: gripper_command

text \<open>One reading of the actuator: what its query methods return at that moment.\<close>

record gripper =
  g_type :: string
  g_error :: bool
  g_calibrated :: bool
  g_parameters :: "string \<rightharpoonup> real"
  g_position :: real
  g_force :: real
  g_gripping :: bool

text \<open>
  What one pass of the loop observes: the clock at the loop condition, the preempt flag
  of the action server, and the actuator.
\<close>

record frame =
  get_time :: real
  is_preempt_requested :: bool
  gripper_of :: gripper

text \<open>The calls made on the collaborators.\<close>

datatype call =
    Rospy_sleep real
  | Server_start
  | Reboot
  | Calibrate
  | Logerr string
  | Loginfo string
  | Set_aborted "gripper_command_feedback option"
  | Set_succeeded gripper_command_feedback
  | Publish_feedback gripper_command_feedback
  | Set_parameters "(string \<times> real) list"
  | Set_moving_force real
  | Stop
  | Command_position real bool
  | Rate_sleep

text \<open>
  The attributes of \<^verbatim>\<open>self\<close>. \<^verbatim>\<open>self._param.config\<close> is read afresh by every goal
  and is an argument of \<open>get_gripper_parameters\<close>. \<^verbatim>\<open>self._result\<close> is bound to the
  very object \<^verbatim>\<open>self._feedback\<close>; it is read only directly after that assignment, where
  the copy kept here has the same value. The four actuation parameters are created only
  for an electric gripper and are read only under the same test.
\<close>

record gripper_action_server =
  ee :: string
  ns :: string
  action_name :: string
  gtype :: string
  timeout :: real
  default_effort :: real
  dead_band :: real
  velocity :: real
  moving_force :: real
  holding_force :: real
  feedback :: gripper_command_feedback
  result :: gripper_command_feedback
  calls :: "call list"

type_synonym 'a raising = "error \<times> gripper_action_server + 'a"

subsection \<open>Operations\<close>

definition emit :: "call \<Rightarrow> gripper_action_server \<Rightarrow> gripper_action_server" where
  "emit c s = s\<lparr>calls := calls s @ [c]\<rparr>"

text \<open>\<^verbatim>\<open>d[k]\<close> on a dictionary.\<close>

definition getitem :: "(string \<rightharpoonup> real) \<Rightarrow> string \<Rightarrow> error + real" where
  "getitem d k = (case d k of None \<Rightarrow> Inl (KeyError k) | Some v \<Rightarrow> Inr v)"

text \<open>Truth value of what \<^verbatim>\<open>check_state\<close> returns: \<^verbatim>\<open>None\<close> is false.\<close>

fun truthy :: "bool option \<Rightarrow> bool" where
  "truthy None = False"
| "truthy (Some b) = b"

definition new_message :: gripper_command_feedback where
  "new_message = \<lparr>fb_position = 0, fb_effort = 0, fb_stalled = False, fb_reached_goal = False\<rparr>"

text \<open>\<^verbatim>\<open>__init__\<close> (lines 48-89). An exception here leaves no object behind.\<close>

definition init :: "string \<Rightarrow> string \<Rightarrow> gripper \<Rightarrow> error + gripper_action_server" where
  "init gripper name g =
    (let s = \<lparr>ee = gripper @ ''_gripper'',
              ns = ''robot/end_effector/'' @ (gripper @ ''_gripper'') @ ''/gripper_action'',
              action_name = name,
              gtype = g_type g,
              timeout = 5.0,
              default_effort = 40.0,
              dead_band = 0, velocity = 0, moving_force = 0, holding_force = 0,
              feedback = new_message,
              result = new_message,
              calls = [Rospy_sleep 0.25, Server_start]
                @ (if g_error g then [Reboot] else [])
                @ (if \<not> g_calibrated g then [Calibrate] else [])\<rparr>;
         init_params = g_parameters g
     in if gtype s = ''electric'' then
          (case getitem init_params ''dead_zone'' of Inl e \<Rightarrow> Inl e | Inr d \<Rightarrow>
          (case getitem init_params ''velocity'' of Inl e \<Rightarrow> Inl e | Inr v \<Rightarrow>
          (case getitem init_params ''moving_force'' of Inl e \<Rightarrow> Inl e | Inr m \<Rightarrow>
          (case getitem init_params ''holding_force'' of Inl e \<Rightarrow> Inl e | Inr h \<Rightarrow>
             Inr (s\<lparr>dead_band := d, velocity := v, moving_force := m,
                    holding_force := h\<rparr>)))))
        else Inr s)"

text \<open>\<^verbatim>\<open>_get_gripper_parameters\<close> (lines 91-103).\<close>

definition get_gripper_parameters ::
  "(string \<rightharpoonup> real) \<Rightarrow> gripper_action_server \<Rightarrow> gripper_action_server raising" where
  "get_gripper_parameters config s0 =
    (case getitem config (ee s0 @ ''_timeout'') of Inl e \<Rightarrow> Inl (e, s0) | Inr t \<Rightarrow>
     (let s1 = s0\<lparr>timeout := t\<rparr> in
      if gtype s1 = ''electric'' then
        (case getitem config (ee s1 @ ''_goal'') of Inl e \<Rightarrow> Inl (e, s1) | Inr d \<Rightarrow>
        (let s2 = s1\<lparr>dead_band := d\<rparr> in
        (case getitem config (ee s2 @ ''_velocity'') of Inl e \<Rightarrow> Inl (e, s2) | Inr v \<Rightarrow>
        (let s3 = s2\<lparr>velocity := v\<rparr> in
        (case getitem config (ee s3 @ ''_moving_force'') of Inl e \<Rightarrow> Inl (e, s3) | Inr m \<Rightarrow>
        (let s4 = s3\<lparr>moving_force := m\<rparr> in
        (case getitem config (ee s4 @ ''_holding_force'') of Inl e \<Rightarrow> Inl (e, s4) | Inr h \<Rightarrow>
        (let s5 = s4\<lparr>holding_force := h\<rparr>;
             param_update = [(''dead_zone'', dead_band s5),
                             (''velocity'', velocity s5),
                             (''moving_force'', moving_force s5),
                             (''holding_force'', holding_force s5)]
         in Inr (emit (Set_parameters param_update) s5)))))))))
      else Inr s1))"

text \<open>
  \<^verbatim>\<open>_update_feedback\<close> (lines 112-122). For a suction gripper \<^verbatim>\<open>gripping()\<close> is called
  and its value dropped, so \<^verbatim>\<open>reached_goal\<close> keeps what it held.
\<close>

definition update_feedback ::
  "gripper \<Rightarrow> real \<Rightarrow> gripper_action_server \<Rightarrow> gripper_action_server raising" where
  "update_feedback g position s0 =
    (let s1 = s0\<lparr>feedback := (feedback s0)\<lparr>fb_position := g_position g\<rparr>\<rparr>;
         s2 = s1\<lparr>feedback := (feedback s1)\<lparr>fb_effort := g_force g\<rparr>\<rparr>
     in case getitem (g_parameters g) ''moving_force'' of Inl e \<Rightarrow> Inl (e, s2) | Inr m \<Rightarrow>
        let s3 = s2\<lparr>feedback := (feedback s2)\<lparr>fb_stalled := (g_force g > m)\<rparr>\<rparr>;
            s4 = (if gtype s3 = ''electric''
                  then s3\<lparr>feedback := (feedback s3)
                         \<lparr>fb_reached_goal := (\<bar>g_position g - position\<bar> < dead_band s3)\<rparr>\<rparr>
                  else s3);
            s5 = (if gtype s4 = ''suction'' then (let _ = g_gripping g in s4) else s4)
        in Inr (s5\<lparr>result := feedback s5\<rparr>))"

text \<open>The effort of a goal (lines 126-132).\<close>

definition resolve_effort :: "gripper_action_server \<Rightarrow> real \<Rightarrow> real" where
  "resolve_effort s max_effort =
    (let effort = max_effort;
         effort = (if \<bar>effort\<bar> < 0.0001 then default_effort s else effort);
         effort = (if effort = - 1.0 then 100.0 else effort)
     in effort)"

text \<open>The two local functions of \<^verbatim>\<open>_on_gripper_action\<close> (lines 156-166).\<close>

definition now_from_start :: "real \<Rightarrow> real \<Rightarrow> real" where
  "now_from_start now start = now - start"

definition check_state ::
  "gripper \<Rightarrow> real \<Rightarrow> gripper_action_server \<Rightarrow> error + bool option" where
  "check_state g position s =
    (if gtype s = ''electric'' then
       (case getitem (g_parameters g) ''moving_force'' of Inl e \<Rightarrow> Inl e | Inr m \<Rightarrow>
          Inr (Some (g_force g > m \<or> \<bar>g_position g - position\<bar> < dead_band s)))
     else Inr None)"

text \<open>
  The body of the loop (lines 171-182). \<open>Inr (True, s)\<close> is the \<^verbatim>\<open>return\<close> of line
  179, \<open>Inr (False, s)\<close> the end of the body.
\<close>

definition loop_body ::
  "real \<Rightarrow> frame \<Rightarrow> gripper_action_server \<Rightarrow> (bool \<times> gripper_action_server) raising" where
  "loop_body position f s0 =
    (let s1 = (if is_preempt_requested f
               then emit (Loginfo (action_name s0 @ '': Gripper Action Preempted''))
                      (emit Stop s0)
               else s0)
     in case update_feedback (gripper_of f) position s1 of Inl x \<Rightarrow> Inl x | Inr s2 \<Rightarrow>
       (case check_state (gripper_of f) position s2 of Inl e \<Rightarrow> Inl (e, s2) | Inr c \<Rightarrow>
          if truthy c then Inr (True, emit (Set_succeeded (result s2)) s2)
          else Inr (False,
                 emit Rate_sleep
                   (emit (Publish_feedback (feedback s2))
                      (emit (Command_position position False) s2)))))"

text \<open>The code after the loop (lines 184-189).\<close>

definition check_failure ::
  "bool \<Rightarrow> real \<Rightarrow> gripper \<Rightarrow> gripper_action_server \<Rightarrow> gripper_action_server raising" where
  "check_failure success position g s0 =
    (if \<not> success then
       (let s1 = emit (Logerr (action_name s0 @
                    '': Gripper Command Not Achieved in Allotted Time'')) s0
        in case update_feedback g position s1 of Inl x \<Rightarrow> Inl x | Inr s2 \<Rightarrow>
           Inr (emit (Set_aborted (Some (result s2))) s2))
     else Inr s0)"

text \<open>
  The loop of lines 169-189. \<^verbatim>\<open>success\<close> is still \<^verbatim>\<open>False\<close> whenever the condition
  of the loop is found false.
\<close>

fun loop ::
  "real \<Rightarrow> real \<Rightarrow> frame list \<Rightarrow> gripper_action_server
     \<Rightarrow> gripper_action_server raising option" where
  "loop position start_time [] s = None"
| "loop position start_time (f # fs) s =
    (if now_from_start (get_time f) start_time < timeout s \<or> timeout s < 0.0 then
       (case loop_body position f s of
          Inl x \<Rightarrow> Some (Inl x)
        | Inr (returned, s') \<Rightarrow>
            if returned then Some (Inr s') else loop position start_time fs s')
     else Some (check_failure False position (gripper_of f) s))"

text \<open>
  \<^verbatim>\<open>_on_gripper_action\<close> (lines 124-189). \<open>g\<close> is the actuator as read before the
  loop, \<open>start_time\<close> the clock of line 150.
\<close>

definition on_gripper_action ::
  "gripper_command_goal \<Rightarrow> (string \<rightharpoonup> real) \<Rightarrow> gripper \<Rightarrow> real \<Rightarrow> frame list
     \<Rightarrow> gripper_action_server \<Rightarrow> gripper_action_server raising option" where
  "on_gripper_action goal config g start_time frames s0 =
    (let position = cmd_position (command goal);
         effort = resolve_effort s0 (cmd_max_effort (command goal));
         s1 = (if g_error g
               then emit (Set_aborted None)
                      (emit (Logerr (action_name s0 @
                         '': Gripper error - please restart action server.'')) s0)
               else s0)
     in case get_gripper_parameters config s1 of Inl x \<Rightarrow> Some (Inl x) | Inr s2 \<Rightarrow>
       (case update_feedback g position s2 of Inl x \<Rightarrow> Some (Inl x) | Inr s3 \<Rightarrow>
         (let s4 = (if gtype s3 = ''electric''
                    then emit (Set_moving_force effort) s3 else s3)
          in loop position start_time frames s4)))"

subsection \<open>Auxiliary notions for stating the properties\<close>

text \<open>
  The calls that report a terminal outcome of the goal to the action server.
\<close>

fun is_terminal :: "call \<Rightarrow> bool" where
  "is_terminal (Set_aborted r) = True"
| "is_terminal (Set_succeeded r) = True"
| "is_terminal c = False"

definition terminal_calls :: "gripper_action_server \<Rightarrow> call list" where
  "terminal_calls s = filter is_terminal (calls s)"

text \<open>The calls made since the state \<open>s\<close>, seen from a later state \<open>s'\<close>.\<close>

definition calls_since :: "gripper_action_server \<Rightarrow> gripper_action_server \<Rightarrow> call list" where
  "calls_since s s' = drop (length (calls s)) (calls s')"

text \<open>The state a pass of the loop body ends in, whichever way it ends.\<close>

fun body_state :: "(bool \<times> gripper_action_server) raising \<Rightarrow> gripper_action_server" where
  "body_state (Inl (e, s)) = s"
| "body_state (Inr (b, s)) = s"

text \<open>The state an operation ends in, whether it returns or raises.\<close>

fun final_state :: "gripper_action_server raising \<Rightarrow> gripper_action_server" where
  "final_state (Inl (e, s)) = s"
| "final_state (Inr s) = s"

text \<open>
  A frame at which the loop goes round once more: the condition of the loop holds, the
  actuator reports a moving force, and \<^verbatim>\<open>check_state\<close> is not true.
\<close>

definition keeps_running :: "real \<Rightarrow> real \<Rightarrow> gripper_action_server \<Rightarrow> frame \<Rightarrow> bool" where
  "keeps_running position start_time s f \<longleftrightarrow>
     (now_from_start (get_time f) start_time < timeout s \<or> timeout s < 0.0) \<and>
     g_parameters (gripper_of f) ''moving_force'' \<noteq> None \<and>
     (case check_state (gripper_of f) position s of Inl e \<Rightarrow> False | Inr c \<Rightarrow> \<not> truthy c)"

text \<open>The state after passes of the loop body that end without \<^verbatim>\<open>return\<close>.\<close>

fun ticks :: "real \<Rightarrow> frame list \<Rightarrow> gripper_action_server \<Rightarrow> gripper_action_server" where
  "ticks position [] s = s"
| "ticks position (f # fs) s =
    (case loop_body position f s of
       Inr (False, s') \<Rightarrow> ticks position fs s'
     | _ \<Rightarrow> s)"

text \<open>
  The two calls a preempt request adds, and a state with them removed; a frame with the
  preempt request cleared.
\<close>

fun preempt_call :: "call \<Rightarrow> bool" where
  "preempt_call Stop = True"
| "preempt_call (Loginfo m) = True"
| "preempt_call c = False"

definition erase :: "gripper_action_server \<Rightarrow> gripper_action_server" where
  "erase s = s\<lparr>calls := filter (\<lambda>c. \<not> preempt_call c) (calls s)\<rparr>"

definition no_preempt :: "frame \<Rightarrow> frame" where
  "no_preempt f = f\<lparr>is_preempt_requested := False\<rparr>"

text \<open>
  The keys \<^verbatim>\<open>_get_gripper_parameters\<close> reads, and the attributes it assigns from them,
  both in the order of the source.
\<close>

definition requested_keys :: "gripper_action_server \<Rightarrow> string list" where
  "requested_keys s =
     (ee s @ ''_timeout'') #
     (if gtype s = ''electric''
      then [ee s @ ''_goal'', ee s @ ''_velocity'', ee s @ ''_moving_force'',
            ee s @ ''_holding_force'']
      else [])"

definition control_parameters :: "gripper_action_server \<Rightarrow> real list" where
  "control_parameters s =
     [timeout s, dead_band s, velocity s, moving_force s, holding_force s]"

subsection \<open>A concrete server, configuration and actuator\<close>

definition electric_parameters :: "string \<rightharpoonup> real" where
  "electric_parameters =
     [''dead_zone'' \<mapsto> 5.0, ''velocity'' \<mapsto> 50.0, ''moving_force'' \<mapsto> 40.0,
      ''holding_force'' \<mapsto> 30.0]"

definition reading :: "string \<Rightarrow> bool \<Rightarrow> real \<Rightarrow> real \<Rightarrow> bool \<Rightarrow> gripper" where
  "reading ty err pos force grip =
     \<lparr>g_type = ty, g_error = err, g_calibrated = True, g_parameters = electric_parameters,
      g_position = pos, g_force = force, g_gripping = grip\<rparr>"




definition at_time :: "real \<Rightarrow> bool \<Rightarrow> gripper \<Rightarrow> frame" where
  "at_time t preempt g = \<lparr>get_time = t, is_preempt_requested = preempt, gripper_of = g\<rparr>"

text \<open>The server the constructor builds for the left gripper of the given type.\<close>

definition left_server :: "string \<Rightarrow> gripper_action_server" where
  "left_server ty =
     \<lparr>ee = ''left_gripper'',
      ns = ''robot/end_effector/left_gripper/gripper_action'',
      action_name = ''/rsdk_gripper_action_server'',
      gtype = ty,
      timeout = 5.0,
      default_effort = 40.0,
      dead_band = (if ty = ''electric'' then 5.0 else 0),
      velocity = (if ty = ''electric'' then 50.0 else 0),
      moving_force = (if ty = ''electric'' then 40.0 else 0),
      holding_force = (if ty = ''electric'' then 30.0 else 0),
      feedback = new_message,
      result = new_message,
      calls = [Rospy_sleep 0.25, Server_start]\<rparr>"

definition left_config :: "string \<rightharpoonup> real" where
  "left_config =
     [''left_gripper_timeout'' \<mapsto> 1.0, ''left_gripper_goal'' \<mapsto> 5.0,
      ''left_gripper_velocity'' \<mapsto> 50.0, ''left_gripper_moving_force'' \<mapsto> 40.0,
      ''left_gripper_holding_force'' \<mapsto> 30.0]"

definition goal_to :: "real \<Rightarrow> real \<Rightarrow> gripper_command_goal" where
  "goal_to pos max_eff = \<lparr>command = \<lparr>cmd_position = pos, cmd_max_effort = max_eff\<rparr>\<rparr>"

subsection \<open>Basic facts about the operations\<close>

lemma emit_simps [simp]:
  "calls (emit c s) = calls s @ [c]"
  "gtype (emit c s) = gtype s"
  "timeout (emit c s) = timeout s"
  "dead_band (emit c s) = dead_band s"
  "action_name (emit c s) = action_name s"
  "default_effort (emit c s) = default_effort s"
  "feedback (emit c s) = feedback s"
  "result (emit c s) = result s"
  "ee (emit c s) = ee s"
  by (simp_all add: emit_def)

lemma update_feedback_Some:
  assumes "g_parameters g ''moving_force'' = Some m"
  shows "update_feedback g position s =
     Inr (s\<lparr>feedback := \<lparr>fb_position = g_position g, fb_effort = g_force g,
                fb_stalled = (g_force g > m),
                fb_reached_goal = (if gtype s = ''electric''
                    then \<bar>g_position g - position\<bar> < dead_band s
                    else fb_reached_goal (feedback s))\<rparr>,
             result := \<lparr>fb_position = g_position g, fb_effort = g_force g,
                fb_stalled = (g_force g > m),
                fb_reached_goal = (if gtype s = ''electric''
                    then \<bar>g_position g - position\<bar> < dead_band s
                    else fb_reached_goal (feedback s))\<rparr>\<rparr>)"
  using assms by (simp add: update_feedback_def getitem_def Let_def)

lemma update_feedback_None:
  assumes "g_parameters g ''moving_force'' = None"
  shows "update_feedback g position s =
     Inl (KeyError ''moving_force'',
          s\<lparr>feedback := (feedback s)\<lparr>fb_position := g_position g, fb_effort := g_force g\<rparr>\<rparr>)"
  using assms by (simp add: update_feedback_def getitem_def Let_def)

lemma update_feedback_idem: "update_feedback g position s = Inr s' \<Longrightarrow> update_feedback g position s' = Inr s'"
  by (cases "g_parameters g ''moving_force''") (auto simp: update_feedback_Some update_feedback_None)

lemma update_feedback_idem2: "update_feedback g position s = Inl (e, s') \<Longrightarrow> update_feedback g position s' = Inl (e, s')"
  by (cases "g_parameters g ''moving_force''") (auto simp: update_feedback_Some update_feedback_None)

lemma update_feedback_inv:
  assumes "update_feedback g position s = Inr s'"
  shows "gtype s' = gtype s" "timeout s' = timeout s" "dead_band s' = dead_band s"
    "action_name s' = action_name s" "calls s' = calls s" "default_effort s' = default_effort s"
    "result s' = feedback s'"
  using assms
  by (cases "g_parameters g ''moving_force''"; auto simp: update_feedback_Some update_feedback_None)+

lemma update_feedback_raise_inv:
  assumes "update_feedback g position s = Inl (e, s')"
  shows "calls s' = calls s" "e = KeyError ''moving_force''"
  using assms
  by (cases "g_parameters g ''moving_force''"; auto simp: update_feedback_Some update_feedback_None)+

lemma check_state_cong:
  "gtype s' = gtype s \<Longrightarrow> dead_band s' = dead_band s \<Longrightarrow> check_state g position s' = check_state g position s"
  by (simp add: check_state_def split: sum.splits)

lemma loop_body_returned:
  assumes "loop_body position f s = Inr (b, s')"
  shows "gtype s' = gtype s" "timeout s' = timeout s" "dead_band s' = dead_band s"
    "action_name s' = action_name s" "default_effort s' = default_effort s"
    "result s' = feedback s'"
    "calls s' = calls s
       @ (if is_preempt_requested f
          then [Stop, Loginfo (action_name s @ '': Gripper Action Preempted'')] else [])
       @ (if b then [Set_succeeded (result s')]
          else [Command_position position False, Publish_feedback (feedback s'), Rate_sleep])"
  using assms
  by (auto simp: loop_body_def Let_def update_feedback_inv split: sum.splits if_splits)

lemma loop_body_raised:
  assumes "loop_body position f s = Inl (e, s')"
  shows "e = KeyError ''moving_force''"
    "calls s' = calls s
       @ (if is_preempt_requested f
          then [Stop, Loginfo (action_name s @ '': Gripper Action Preempted'')] else [])"
  using assms
  by (auto simp: loop_body_def Let_def update_feedback_inv update_feedback_raise_inv check_state_def getitem_def
       split: sum.splits if_splits option.splits)

lemma check_failure_Some:
  assumes "g_parameters g ''moving_force'' = Some m"
  shows "check_failure False position g s =
     Inr (s\<lparr>feedback := \<lparr>fb_position = g_position g, fb_effort = g_force g,
                fb_stalled = (g_force g > m),
                fb_reached_goal = (if gtype s = ''electric''
                    then \<bar>g_position g - position\<bar> < dead_band s
                    else fb_reached_goal (feedback s))\<rparr>,
             result := \<lparr>fb_position = g_position g, fb_effort = g_force g,
                fb_stalled = (g_force g > m),
                fb_reached_goal = (if gtype s = ''electric''
                    then \<bar>g_position g - position\<bar> < dead_band s
                    else fb_reached_goal (feedback s))\<rparr>,
             calls := calls s @
               [Logerr (action_name s @ '': Gripper Command Not Achieved in Allotted Time''),
                Set_aborted (Some \<lparr>fb_position = g_position g, fb_effort = g_force g,
                  fb_stalled = (g_force g > m),
                  fb_reached_goal = (if gtype s = ''electric''
                    then \<bar>g_position g - position\<bar> < dead_band s
                    else fb_reached_goal (feedback s))\<rparr>)]\<rparr>)"
  by (simp add: check_failure_def Let_def update_feedback_Some [OF assms] emit_def)

lemma check_failure_returned:
  assumes "check_failure False position g s = Inr s'"
  shows "calls s' = calls s @
           [Logerr (action_name s @ '': Gripper Command Not Achieved in Allotted Time''),
            Set_aborted (Some (result s'))]"
    "gtype s' = gtype s" "timeout s' = timeout s" "default_effort s' = default_effort s"
  using assms
  by (auto simp: check_failure_def Let_def update_feedback_inv split: sum.splits)

lemma check_failure_raised:
  assumes "check_failure False position g s = Inl (e, s')"
  shows "calls s' = calls s @
           [Logerr (action_name s @ '': Gripper Command Not Achieved in Allotted Time'')]"
    "e = KeyError ''moving_force''"
  using assms
  by (auto simp: check_failure_def Let_def update_feedback_raise_inv split: sum.splits)

lemma get_gripper_parameters_returned:
  assumes "get_gripper_parameters config s = Inr s'"
  shows "gtype s' = gtype s" "action_name s' = action_name s"
    "default_effort s' = default_effort s" "feedback s' = feedback s"
    "config (ee s @ ''_timeout'') = Some (timeout s')"
    "\<exists>cs. calls s' = calls s @ cs \<and> (\<forall>x\<in>set cs. \<not> is_terminal x)"
  using assms
  by (auto simp: get_gripper_parameters_def getitem_def Let_def
        split: option.splits if_splits)

lemma get_gripper_parameters_missing:
  assumes "find (\<lambda>k. config k = None) (requested_keys s) = Some k"
  shows "\<exists>s'. get_gripper_parameters config s = Inl (KeyError k, s') \<and>
     calls s' = calls s \<and> feedback s' = feedback s \<and> result s' = result s \<and>
     (let n = length (takeWhile (\<lambda>k. config k \<noteq> None) (requested_keys s)) in
        take n (control_parameters s') = map (the \<circ> config) (take n (requested_keys s)) \<and>
        drop n (control_parameters s') = drop n (control_parameters s))"
proof (cases "gtype s = ''electric''")
  case False
  with assms show ?thesis
    by (auto simp: get_gripper_parameters_def requested_keys_def control_parameters_def
          getitem_def Let_def split: if_splits option.splits)
next
  case True
  with assms show ?thesis
    by (auto simp: get_gripper_parameters_def requested_keys_def control_parameters_def
          getitem_def Let_def split: if_splits option.splits)
qed

subsection \<open>Passes of the loop\<close>

lemma keeps_running_cong:
  "gtype s' = gtype s \<Longrightarrow> timeout s' = timeout s \<Longrightarrow> dead_band s' = dead_band s \<Longrightarrow>
   keeps_running position start_time s' f = keeps_running position start_time s f"
  using check_state_cong [of s' s "gripper_of f" position] by (simp add: keeps_running_def)

lemma loop_body_idle:
  assumes "keeps_running position start_time s f"
  shows "\<exists>s'. loop_body position f s = Inr (False, s')"
proof -
  define s1 where "s1 = (if is_preempt_requested f
               then emit (Loginfo (action_name s @ '': Gripper Action Preempted''))
                      (emit Stop s)
               else s)"
  from assms obtain m where m: "g_parameters (gripper_of f) ''moving_force'' = Some m"
    by (auto simp: keeps_running_def)
  have "\<exists>s2. update_feedback (gripper_of f) position s1 = Inr s2"
    by (simp add: update_feedback_Some [OF m])
  then obtain s2 where s2: "update_feedback (gripper_of f) position s1 = Inr s2" ..
  have inv: "gtype s2 = gtype s" "dead_band s2 = dead_band s"
    using update_feedback_inv(1,3) [OF s2] by (simp_all add: s1_def)
  from assms obtain c where c: "check_state (gripper_of f) position s = Inr c" "\<not> truthy c"
    by (auto simp: keeps_running_def split: sum.splits)
  have "check_state (gripper_of f) position s2 = Inr c"
    using c(1) check_state_cong [OF inv, of "gripper_of f" position] by simp
  then show ?thesis
    using s2 c(2) unfolding loop_body_def s1_def [symmetric] Let_def by simp
qed

lemma ticks_inv:
  "gtype (ticks position fs s) = gtype s \<and> timeout (ticks position fs s) = timeout s \<and>
   dead_band (ticks position fs s) = dead_band s \<and> action_name (ticks position fs s) = action_name s
   \<and> default_effort (ticks position fs s) = default_effort s"
proof (induction fs arbitrary: s)
  case Nil
  then show ?case by simp
next
  case (Cons f fs)
  show ?case
  proof (cases "loop_body position f s")
    case (Inl x)
    then show ?thesis by simp
  next
    case (Inr r)
    obtain b s' where r: "r = (b, s')" by (cases r)
    show ?thesis
      using Inr r Cons.IH [of s'] loop_body_returned(1-5) [of position f s b s']
      by (cases b) simp_all
  qed
qed

lemma loop_append:
  assumes "\<forall>p\<in>set pre. keeps_running position start_time s p"
  shows "loop position start_time (pre @ rest) s = loop position start_time rest (ticks position pre s)"
  using assms
proof (induction pre arbitrary: s)
  case Nil
  then show ?case by simp
next
  case (Cons p pre)
  from Cons.prems have kp: "keeps_running position start_time s p" by simp
  then obtain s' where b: "loop_body position p s = Inr (False, s')"
    using loop_body_idle by blast
  have inv: "gtype s' = gtype s" "timeout s' = timeout s" "dead_band s' = dead_band s"
    using loop_body_returned(1-3) [OF b] by simp_all
  have "\<forall>q\<in>set pre. keeps_running position start_time s' q"
    using Cons.prems by (simp add: keeps_running_cong [OF inv])
  then have "loop position start_time (pre @ rest) s' = loop position start_time rest (ticks position pre s')"
    by (rule Cons.IH)
  moreover have "now_from_start (get_time p) start_time < timeout s \<or> timeout s < 0.0"
    using kp by (simp add: keeps_running_def)
  ultimately show ?case using b by simp
qed

lemma loop_keeps_running:
  assumes "\<forall>p\<in>set frames. keeps_running position start_time s p"
  shows "loop position start_time frames s = None"
  using loop_append [OF assms, of "[]"] by simp

lemma loop_exits_on_timeout:
  assumes "\<forall>p\<in>set pre. keeps_running position start_time s p"
    and "\<not> (now_from_start (get_time f) start_time < timeout s \<or> timeout s < 0.0)"
  shows "loop position start_time (pre @ f # rest) s =
     Some (check_failure False position (gripper_of f) (ticks position pre s))"
proof -
  have "loop position start_time (pre @ f # rest) s
      = loop position start_time (f # rest) (ticks position pre s)"
    using assms(1) by (rule loop_append)
  also have "\<dots> = Some (check_failure False position (gripper_of f) (ticks position pre s))"
    using assms(2) ticks_inv [of position pre s] by simp
  finally show ?thesis .
qed


lemma loop_returned:
  assumes "loop position start_time frames s = Some (Inr s')"
  shows "\<exists>cs. (\<forall>x\<in>set cs. \<not> is_terminal x) \<and>
           (calls s' = calls s @ cs @ [Set_succeeded (result s')] \<and> gtype s = ''electric'' \<or>
            calls s' = calls s @ cs @
              [Logerr (action_name s @ '': Gripper Command Not Achieved in Allotted Time''),
               Set_aborted (Some (result s'))] \<and> \<not> timeout s < 0)"
  using assms
proof (induction frames arbitrary: s)
  case Nil
  then show ?case by simp
next
  case (Cons f fs)
  show ?case
  proof (cases "now_from_start (get_time f) start_time < timeout s \<or> timeout s < 0.0")
    case False
    with Cons.prems have cf: "check_failure False position (gripper_of f) s = Inr s'"
      by simp
    from False have "\<not> timeout s < 0" by simp
    then show ?thesis
      using check_failure_returned(1) [OF cf]
      by (intro exI [of _ "[]"]) simp
  next
    case run: True
    show ?thesis
    proof (cases "loop_body position f s")
      case (Inl x)
      with run Cons.prems show ?thesis by simp
    next
      case (Inr r)
      obtain b s1 where r: "r = (b, s1)" by (cases r)
      note body = Inr [unfolded r]
      note facts = loop_body_returned [OF body]
      show ?thesis
      proof (cases b)
        case True
        with run Cons.prems body have s': "s' = s1" by simp
        have el: "gtype s = ''electric''"
          using body True
          by (auto simp: loop_body_def Let_def check_state_def update_feedback_inv
                split: sum.splits if_splits)
        show ?thesis
          using facts(7) True el unfolding s'
          by (intro exI [of _ "if is_preempt_requested f
                 then [Stop, Loginfo (action_name s @ '': Gripper Action Preempted'')] else []"])
             auto
      next
        case False
        with run Cons.prems body have "loop position start_time fs s1 = Some (Inr s')" by simp
        from Cons.IH [OF this] obtain cs where
          cs: "\<forall>x\<in>set cs. \<not> is_terminal x"
          "calls s' = calls s1 @ cs @ [Set_succeeded (result s')] \<and> gtype s1 = ''electric'' \<or>
            calls s' = calls s1 @ cs @
              [Logerr (action_name s1 @ '': Gripper Command Not Achieved in Allotted Time''),
               Set_aborted (Some (result s'))] \<and> \<not> timeout s1 < 0"
          by blast
        let ?cs = "(if is_preempt_requested f
                 then [Stop, Loginfo (action_name s @ '': Gripper Action Preempted'')] else [])
                 @ [Command_position position False, Publish_feedback (feedback s1), Rate_sleep] @ cs"
        have 1: "\<forall>x\<in>set ?cs. \<not> is_terminal x"
          using cs(1) by auto
        have 2: "calls s1 @ cs = calls s @ ?cs"
          using facts(7) False by simp
        have 3: "calls s' = calls s @ ?cs @ [Set_succeeded (result s')] \<and> gtype s = ''electric'' \<or>
            calls s' = calls s @ ?cs @
              [Logerr (action_name s @ '': Gripper Command Not Achieved in Allotted Time''),
               Set_aborted (Some (result s'))] \<and> \<not> timeout s < 0"
        proof (rule disjE [OF cs(2)])
          assume a: "calls s' = calls s1 @ cs @ [Set_succeeded (result s')] \<and> gtype s1 = ''electric''"
          then have "calls s' = (calls s1 @ cs) @ [Set_succeeded (result s')]" by simp
          then have "calls s' = calls s @ ?cs @ [Set_succeeded (result s')]"
            unfolding 2 by simp
          moreover have "gtype s = ''electric''" using a facts(1) by simp
          ultimately show ?thesis by simp
        next
          assume a: "calls s' = calls s1 @ cs @
              [Logerr (action_name s1 @ '': Gripper Command Not Achieved in Allotted Time''),
               Set_aborted (Some (result s'))] \<and> \<not> timeout s1 < 0"
          then have "calls s' = (calls s1 @ cs) @
              [Logerr (action_name s @ '': Gripper Command Not Achieved in Allotted Time''),
               Set_aborted (Some (result s'))]" using facts(4) by simp
          then have "calls s' = calls s @ ?cs @
              [Logerr (action_name s @ '': Gripper Command Not Achieved in Allotted Time''),
               Set_aborted (Some (result s'))]"
            unfolding 2 by simp
          moreover have "\<not> timeout s < 0" using a facts(2) by simp
          ultimately show ?thesis by simp
        qed
        show ?thesis
          by (rule exI [of _ ?cs]) (use 1 3 in blast)
      qed
    qed
  qed
qed

lemma loop_raised:
  assumes "loop position start_time frames s = Some (Inl (e, s'))"
  shows "\<exists>cs. calls s' = calls s @ cs \<and> (\<forall>x\<in>set cs. \<not> is_terminal x)"
  using assms
proof (induction frames arbitrary: s)
  case Nil
  then show ?case by simp
next
  case (Cons f fs)
  show ?case
  proof (cases "now_from_start (get_time f) start_time < timeout s \<or> timeout s < 0.0")
    case False
    with Cons.prems have cf: "check_failure False position (gripper_of f) s = Inl (e, s')"
      by simp
    show ?thesis
      using check_failure_raised(1) [OF cf] by simp
  next
    case run: True
    show ?thesis
    proof (cases "loop_body position f s")
      case (Inl x)
      with run Cons.prems have "loop_body position f s = Inl (e, s')" by simp
      from loop_body_raised(2) [OF this] show ?thesis by auto
    next
      case (Inr r)
      obtain b s1 where r: "r = (b, s1)" by (cases r)
      note body = Inr [unfolded r]
      note facts = loop_body_returned [OF body]
      show ?thesis
      proof (cases b)
        case True
        with run Cons.prems body show ?thesis by simp
      next
        case False
        with run Cons.prems body have "loop position start_time fs s1 = Some (Inl (e, s'))" by simp
        from Cons.IH [OF this] obtain cs where
          cs: "calls s' = calls s1 @ cs" "\<forall>x\<in>set cs. \<not> is_terminal x"
          by blast
        show ?thesis
          using cs facts(7) False by (auto split: if_splits)
      qed
    qed
  qed
qed

lemma on_gripper_action_returned:
  assumes "on_gripper_action goal config g start_time frames s = Some (Inr s')"
  shows "\<exists>s3 cs. loop (cmd_position (command goal)) start_time frames s3 = Some (Inr s') \<and>
           gtype s3 = gtype s \<and> action_name s3 = action_name s \<and>
           config (ee s @ ''_timeout'') = Some (timeout s3) \<and>
           calls s3 = calls s
             @ (if g_error g
                then [Logerr (action_name s @ '': Gripper error - please restart action server.''),
                      Set_aborted None]
                else [])
             @ cs \<and>
           (\<forall>x\<in>set cs. \<not> is_terminal x)"
proof -
  define s1 where "s1 = (if g_error g
               then emit (Set_aborted None)
                      (emit (Logerr (action_name s @
                         '': Gripper error - please restart action server.'')) s)
               else s)"
  have s1: "gtype s1 = gtype s" "action_name s1 = action_name s" "ee s1 = ee s"
    "calls s1 = calls s @ (if g_error g
                then [Logerr (action_name s @ '': Gripper error - please restart action server.''),
                      Set_aborted None]
                else [])"
    by (simp_all add: s1_def)
  from assms obtain s2 where s2: "get_gripper_parameters config s1 = Inr s2"
    unfolding on_gripper_action_def Let_def s1_def [symmetric]
    by (auto split: sum.splits)
  from assms s2 obtain s3 where s3: "update_feedback g (cmd_position (command goal)) s2 = Inr s3"
    unfolding on_gripper_action_def Let_def s1_def [symmetric]
    by (auto split: sum.splits)
  define s4 where "s4 = (if gtype s3 = ''electric''
      then emit (Set_moving_force (resolve_effort s (cmd_max_effort (command goal)))) s3 else s3)"
  from assms s2 s3 have l: "loop (cmd_position (command goal)) start_time frames s4 = Some (Inr s')"
    unfolding on_gripper_action_def Let_def s1_def [symmetric] s4_def
    by simp
  note g = get_gripper_parameters_returned [OF s2]
  note u = update_feedback_inv [OF s3]
  from g(6) obtain cs where cs: "calls s2 = calls s1 @ cs" "\<forall>x\<in>set cs. \<not> is_terminal x"
    by blast
  let ?cs = "cs @ (if gtype s3 = ''electric''
      then [Set_moving_force (resolve_effort s (cmd_max_effort (command goal)))] else [])"
  have "gtype s4 = gtype s" "action_name s4 = action_name s"
    using g(1,2) u(1,4) s1(1,2) by (simp_all add: s4_def)
  moreover have "config (ee s @ ''_timeout'') = Some (timeout s4)"
    using g(5) u(2) s1(3) by (simp add: s4_def)
  moreover have "calls s4 = calls s
             @ (if g_error g
                then [Logerr (action_name s @ '': Gripper error - please restart action server.''),
                      Set_aborted None]
                else [])
             @ ?cs"
    using cs(1) u(5) s1(4) by (simp add: s4_def)
  moreover have "\<forall>x\<in>set ?cs. \<not> is_terminal x"
    using cs(2) by auto
  ultimately show ?thesis using l by blast
qed





subsection \<open>Runs that differ in preempt requests only\<close>

lemma erase_eqD:
  assumes "erase s = erase t"
  shows "t = s\<lparr>calls := calls t\<rparr>"
    "filter (\<lambda>c. \<not> preempt_call c) (calls s) = filter (\<lambda>c. \<not> preempt_call c) (calls t)"
  using assms by (cases s; cases t; simp add: erase_def)+

lemma erase_eqE:
  assumes "erase s = erase t"
  obtains cs where "t = s\<lparr>calls := cs\<rparr>"
    "filter (\<lambda>c. \<not> preempt_call c) cs = filter (\<lambda>c. \<not> preempt_call c) (calls s)"
  using erase_eqD [OF assms] by metis

lemma loop_body_erase:
  assumes "erase s = erase t"
  shows "map_sum (apsnd erase) (apsnd erase) (loop_body position f s) =
         map_sum (apsnd erase) (apsnd erase) (loop_body position (no_preempt f) t)"
proof -
  from assms obtain cs where t: "t = s\<lparr>calls := cs\<rparr>"
    and cs: "filter (\<lambda>c. \<not> preempt_call c) cs = filter (\<lambda>c. \<not> preempt_call c) (calls s)"
    by (rule erase_eqE)
  show ?thesis
  proof (cases "g_parameters (gripper_of f) ''moving_force''")
    case None
    then show ?thesis
      unfolding t
      by (simp add: loop_body_def Let_def update_feedback_None no_preempt_def emit_def
            erase_def cs)
  next
    case (Some m)
    then show ?thesis
      unfolding t
      by (simp add: loop_body_def Let_def update_feedback_Some [OF Some] no_preempt_def emit_def
            erase_def cs check_state_def getitem_def)
  qed
qed

lemma check_failure_erase:
  assumes "erase s = erase t"
  shows "map_sum (apsnd erase) erase (check_failure False position g s) =
         map_sum (apsnd erase) erase (check_failure False position g t)"
proof -
  from assms obtain cs where t: "t = s\<lparr>calls := cs\<rparr>"
    and cs: "filter (\<lambda>c. \<not> preempt_call c) cs = filter (\<lambda>c. \<not> preempt_call c) (calls s)"
    by (rule erase_eqE)
  show ?thesis
  proof (cases "g_parameters g ''moving_force''")
    case None
    then show ?thesis
      unfolding t
      by (simp add: check_failure_def Let_def update_feedback_None emit_def erase_def cs)
  next
    case (Some m)
    then show ?thesis
      unfolding t
      by (simp add: check_failure_def Let_def update_feedback_Some [OF Some] emit_def
            erase_def cs)
  qed
qed

lemma erase_timeout: "erase s = erase t \<Longrightarrow> timeout s = timeout t"
  by (erule erase_eqE) simp

lemma loop_erase:
  assumes "erase s = erase t"
  shows "map_option (map_sum (apsnd erase) erase) (loop position start_time frames s) =
         map_option (map_sum (apsnd erase) erase)
           (loop position start_time (map no_preempt frames) t)"
  using assms
proof (induction frames arbitrary: s t)
  case Nil
  then show ?case by simp
next
  case (Cons f fs)
  note tm = erase_timeout [OF Cons.prems]
  have nf: "get_time (no_preempt f) = get_time f" "gripper_of (no_preempt f) = gripper_of f"
    by (simp_all add: no_preempt_def)
  show ?case
  proof (cases "now_from_start (get_time f) start_time < timeout s \<or> timeout s < 0.0")
    case False
    then show ?thesis
      using check_failure_erase [OF Cons.prems, of position "gripper_of f"]
      by (simp add: tm [symmetric] nf)
  next
    case run: True
    note b = loop_body_erase [OF Cons.prems, of position f]
    show ?thesis
    proof (cases "loop_body position f s")
      case (Inl x)
      obtain e s1 where x: "x = (e, s1)" by (cases x)
      from b Inl x obtain t1 where "loop_body position (no_preempt f) t = Inl (e, t1)"
        "erase s1 = erase t1"
        by (cases "loop_body position (no_preempt f) t") auto
      then show ?thesis
        using run Inl x by (simp add: tm [symmetric] nf)
    next
      case (Inr r)
      obtain r' s1 where r: "r = (r', s1)" by (cases r)
      from b Inr r obtain t1 where t1: "loop_body position (no_preempt f) t = Inr (r', t1)"
        "erase s1 = erase t1"
        by (cases "loop_body position (no_preempt f) t") auto
      show ?thesis
      proof (cases r')
        case True
        then show ?thesis
          using run Inr r t1 by (simp add: tm [symmetric] nf)
      next
        case False
        then show ?thesis
          using run Inr r t1(1) Cons.IH [OF t1(2)] by (simp add: tm [symmetric] nf)
      qed
    qed
  qed
qed

subsection \<open>The concrete server\<close>

text \<open>
  The constructor builds \<open>left_server\<close>; \<open>run_defs\<close> evaluates a concrete run.
\<close>

lemma init_left_server:
  "init ''left'' ''/rsdk_gripper_action_server'' (reading ty False 100 0 False) = Inr (left_server ty)"
  by (simp add: init_def reading_def left_server_def electric_parameters_def getitem_def Let_def)

lemmas run_defs = on_gripper_action_def resolve_effort_def get_gripper_parameters_def
  update_feedback_def check_state_def loop_body_def check_failure_def now_from_start_def
  getitem_def emit_def Let_def
  reading_def at_time_def left_server_def left_config_def goal_to_def electric_parameters_def
  new_message_def

lemma init_default_effort: "init gripper name g = Inr s \<Longrightarrow> default_effort s = 40"
  by (auto simp: init_def Let_def split: if_splits sum.splits)

subsection \<open>Terminal outcomes of a goal\<close>

text \<open>
  The terminal outcomes reported by a callback that returns: the one of the loop or of
  the code after it, and before it the bare \<^verbatim>\<open>set_aborted()\<close> of line 138 when the
  actuator reports an error. So a goal gets exactly one outcome when the actuator
  reports no error, and two when it does.
\<close>

lemma terminal_calls_of_returning_goal:
  assumes "on_gripper_action goal config g start_time frames s = Some (Inr s')"
  shows "\<exists>c. (c = Set_succeeded (result s') \<or> c = Set_aborted (Some (result s'))) \<and>
           filter is_terminal (calls_since s s') =
             (if g_error g then [Set_aborted None, c] else [c])"
proof -
  let ?err = "if g_error g
                then [Logerr (action_name s @ '': Gripper error - please restart action server.''),
                      Set_aborted None]
                else []"
  from on_gripper_action_returned [OF assms] obtain s3 cs0 where
    l: "loop (cmd_position (command goal)) start_time frames s3 = Some (Inr s')"
    and c3: "calls s3 = calls s @ ?err @ cs0"
    and cs0: "\<forall>x\<in>set cs0. \<not> is_terminal x"
    by blast
  from loop_returned [OF l] obtain cs1 where
    cs1: "\<forall>x\<in>set cs1. \<not> is_terminal x"
    and c': "calls s' = calls s3 @ cs1 @ [Set_succeeded (result s')] \<or>
            calls s' = calls s3 @ cs1 @
              [Logerr (action_name s3 @ '': Gripper Command Not Achieved in Allotted Time''),
               Set_aborted (Some (result s'))]"
    by blast
  have f: "filter is_terminal cs0 = []" "filter is_terminal cs1 = []"
    using cs0 cs1 by (auto simp: filter_empty_conv)
  have e: "filter is_terminal ?err = (if g_error g then [Set_aborted None] else [])"
    by simp
  from c' show ?thesis
  proof
    assume "calls s' = calls s3 @ cs1 @ [Set_succeeded (result s')]"
    then have "calls_since s s' = ?err @ cs0 @ cs1 @ [Set_succeeded (result s')]"
      by (simp add: calls_since_def c3)
    then have "filter is_terminal (calls_since s s') =
        (if g_error g then [Set_aborted None, Set_succeeded (result s')]
         else [Set_succeeded (result s')])"
      using f by (simp del: append_assoc)
    then show ?thesis by blast
  next
    assume "calls s' = calls s3 @ cs1 @
              [Logerr (action_name s3 @ '': Gripper Command Not Achieved in Allotted Time''),
               Set_aborted (Some (result s'))]"
    then have "calls_since s s' = ?err @ cs0 @ cs1 @
              [Logerr (action_name s3 @ '': Gripper Command Not Achieved in Allotted Time''),
               Set_aborted (Some (result s'))]"
      by (simp add: calls_since_def c3)
    then have "filter is_terminal (calls_since s s') =
        (if g_error g then [Set_aborted None, Set_aborted (Some (result s'))]
         else [Set_aborted (Some (result s'))])"
      using f by (simp del: append_assoc)
    then show ?thesis by blast
  qed
qed

text \<open>
  C1. Every goal is to get exactly one terminal outcome; in particular a goal aborted for
  an actuator error is not to be reported Succeeded as well. The code does not do this:
  after \<^verbatim>\<open>set_aborted()\<close> of line 138 there is no \<^verbatim>\<open>return\<close>, and the goal below,
  run with the actuator in error and stalled at the first pass of the loop, is
  reported Aborted and then Succeeded.
\<close>

theorem error_goal_reports_twice:
  "map_option (map_sum (terminal_calls \<circ> snd) terminal_calls)
     (on_gripper_action (goal_to 0 0) left_config (reading ''electric'' True 100 50 False) 0
        [at_time 0.05 False (reading ''electric'' True 100 50 False)] (left_server ''electric''))
   = Some (Inr [Set_aborted None,
                Set_succeeded \<lparr>fb_position = 100, fb_effort = 50, fb_stalled = True,
                               fb_reached_goal = False\<rparr>])"
  by (simp add: run_defs terminal_calls_def)

subsection \<open>Missing configuration keys\<close>

text \<open>
  C2 as stated fails: with the key \<^verbatim>\<open>left_gripper_goal\<close> absent, \<^verbatim>\<open>KeyError\<close>
  leaves the callback, after the timeout has been overwritten.
\<close>

theorem missing_key_counterexample:
  "on_gripper_action (goal_to 0 0) [''left_gripper_timeout'' \<mapsto> 2.0]
     (reading ''electric'' False 100 0 False) 0
     [at_time 0.05 False (reading ''electric'' False 100 0 False)] (left_server ''electric'')
   = Some (Inl (KeyError ''left_gripper_goal'', (left_server ''electric'')\<lparr>timeout := 2.0\<rparr>))"
  by (simp add: run_defs)

text \<open>
  C2, amended. When a requested configuration key is absent, parameter resolution
  raises \<^verbatim>\<open>KeyError\<close> for the first absent key in reading order (timeout, goal,
  velocity, moving force, holding force), and the exception leaves the callback: nothing
  is pushed to the actuator, the loop is not entered, feedback and result are untouched.
  The parameters read before that key hold the new values; those from that key on keep
  the values held before.
\<close>

theorem missing_key_raises:
  assumes "find (\<lambda>k. config k = None) (requested_keys s) = Some k"
  shows "\<exists>s'. on_gripper_action goal config g start_time frames s = Some (Inl (KeyError k, s')) \<and>
     calls s' = calls s
       @ (if g_error g
          then [Logerr (action_name s @ '': Gripper error - please restart action server.''),
                Set_aborted None]
          else []) \<and>
     feedback s' = feedback s \<and> result s' = result s \<and>
     (let n = length (takeWhile (\<lambda>k. config k \<noteq> None) (requested_keys s)) in
        take n (control_parameters s') = map (the \<circ> config) (take n (requested_keys s)) \<and>
        drop n (control_parameters s') = drop n (control_parameters s))"
proof -
  define s1 where "s1 = (if g_error g
               then emit (Set_aborted None)
                      (emit (Logerr (action_name s @
                         '': Gripper error - please restart action server.'')) s)
               else s)"
  have s1: "requested_keys s1 = requested_keys s" "control_parameters s1 = control_parameters s"
    "feedback s1 = feedback s" "result s1 = result s"
    "calls s1 = calls s
       @ (if g_error g
          then [Logerr (action_name s @ '': Gripper error - please restart action server.''),
                Set_aborted None]
          else [])"
    by (simp_all add: s1_def requested_keys_def control_parameters_def emit_def)
  from assms have "find (\<lambda>k. config k = None) (requested_keys s1) = Some k"
    by (simp add: s1(1))
  from get_gripper_parameters_missing [OF this] obtain s' where
    s': "get_gripper_parameters config s1 = Inl (KeyError k, s')"
    "calls s' = calls s1" "feedback s' = feedback s1" "result s' = result s1"
    "let n = length (takeWhile (\<lambda>k. config k \<noteq> None) (requested_keys s1)) in
        take n (control_parameters s') = map (the \<circ> config) (take n (requested_keys s1)) \<and>
        drop n (control_parameters s') = drop n (control_parameters s1)"
    by blast
  have "on_gripper_action goal config g start_time frames s = Some (Inl (KeyError k, s'))"
    unfolding on_gripper_action_def Let_def s1_def [symmetric] by (simp add: s'(1))
  then show ?thesis
    using s'(2-5) unfolding s1 by blast
qed

theorem missing_key_raises_witness:
  "find (\<lambda>k. [''left_gripper_timeout'' \<mapsto> 2.0, ''left_gripper_goal'' \<mapsto> 3.0] k = None)
     (requested_keys (left_server ''electric'')) = Some ''left_gripper_velocity'' \<and>
   on_gripper_action (goal_to 0 0)
     [''left_gripper_timeout'' \<mapsto> 2.0, ''left_gripper_goal'' \<mapsto> 3.0]
     (reading ''electric'' False 100 0 False) 0
     [at_time 0.05 False (reading ''electric'' False 100 0 False)] (left_server ''electric'')
   = Some (Inl (KeyError ''left_gripper_velocity'',
                (left_server ''electric'')\<lparr>timeout := 2.0, dead_band := 3.0\<rparr>))"
proof -
  have h: "find (\<lambda>k. [''left_gripper_timeout'' \<mapsto> 2.0, ''left_gripper_goal'' \<mapsto> 3.0] k = None)
     (requested_keys (left_server ''electric'')) = Some ''left_gripper_velocity''"
    by (simp add: requested_keys_def left_server_def)
  show ?thesis
    using h missing_key_raises [OF h, of "goal_to 0 0" "reading ''electric'' False 100 0 False" 0
      "[at_time 0.05 False (reading ''electric'' False 100 0 False)]"]
    by (simp add: run_defs)
qed

subsection \<open>Effort resolution\<close>

text \<open>No operation assigns the default effort, whether it returns or raises.\<close>

lemma update_feedback_default_effort:
  "default_effort (final_state (update_feedback g position s)) = default_effort s"
  by (cases "g_parameters g ''moving_force''")
     (simp_all add: update_feedback_Some update_feedback_None)

lemma get_gripper_parameters_default_effort:
  "default_effort (final_state (get_gripper_parameters config s)) = default_effort s"
  by (simp add: get_gripper_parameters_def getitem_def Let_def split: option.splits)

lemma check_failure_default_effort:
  "default_effort (final_state (check_failure False position g s)) = default_effort s"
proof -
  define s1 where "s1 = emit (Logerr (action_name s @
        '': Gripper Command Not Achieved in Allotted Time'')) s"
  have 1: "default_effort (final_state (update_feedback g position s1)) = default_effort s"
    by (simp add: update_feedback_default_effort s1_def)
  show ?thesis
  proof (cases "update_feedback g position s1")
    case (Inl x)
    with 1 show ?thesis
      unfolding check_failure_def Let_def s1_def [symmetric] by simp
  next
    case (Inr s2)
    with 1 show ?thesis
      unfolding check_failure_def Let_def s1_def [symmetric] by simp
  qed
qed

lemma loop_body_default_effort:
  "default_effort (body_state (loop_body position f s)) = default_effort s"
proof (cases "loop_body position f s")
  case (Inl x)
  obtain e s1 where x: "x = (e, s1)" by (cases x)
  define s0 where "s0 = (if is_preempt_requested f
               then emit (Loginfo (action_name s @ '': Gripper Action Preempted''))
                      (emit Stop s)
               else s)"
  have 0: "default_effort s0 = default_effort s"
    by (simp add: s0_def)
  have 1: "default_effort (final_state (update_feedback (gripper_of f) position s0))
      = default_effort s"
    by (simp add: update_feedback_default_effort 0)
  show ?thesis
  proof (cases "update_feedback (gripper_of f) position s0")
    case l: (Inl y)
    with Inl 1 x show ?thesis
      unfolding loop_body_def Let_def s0_def [symmetric] by auto
  next
    case r: (Inr s2)
    with Inl 1 x show ?thesis
      unfolding loop_body_def Let_def s0_def [symmetric]
      by (auto split: sum.splits if_splits)
  qed
next
  case (Inr r)
  obtain b s1 where "r = (b, s1)" by (cases r)
  with Inr loop_body_returned(5) [of position f s b s1] show ?thesis by simp
qed

lemma loop_default_effort:
  "loop position start_time frames s = Some r \<Longrightarrow>
   default_effort (final_state r) = default_effort s"
proof (induction frames arbitrary: s)
  case Nil
  then show ?case by simp
next
  case (Cons f fs)
  show ?case
  proof (cases "now_from_start (get_time f) start_time < timeout s \<or> timeout s < 0.0")
    case False
    with Cons.prems check_failure_default_effort [of position "gripper_of f" s]
    show ?thesis by auto
  next
    case True
    show ?thesis
    proof (cases "loop_body position f s")
      case (Inl x)
      with True Cons.prems loop_body_default_effort [of position f s] show ?thesis
        by (cases x) auto
    next
      case (Inr q)
      obtain b s1 where q: "q = (b, s1)" by (cases q)
      from Inr q loop_body_default_effort [of position f s]
      have 1: "default_effort s1 = default_effort s" by simp
      show ?thesis
      proof (cases b)
        case True
        with \<open>now_from_start (get_time f) start_time < timeout s \<or> timeout s < 0.0\<close>
          Cons.prems Inr q 1 show ?thesis by auto
      next
        case False
        with \<open>now_from_start (get_time f) start_time < timeout s \<or> timeout s < 0.0\<close>
          Cons.prems Inr q have "loop position start_time fs s1 = Some r" by simp
        from Cons.IH [OF this] 1 show ?thesis by simp
      qed
    qed
  qed
qed

lemma on_gripper_action_default_effort:
  assumes "on_gripper_action goal config g start_time frames s = Some r"
  shows "default_effort (final_state r) = default_effort s"
proof -
  define s1 where "s1 = (if g_error g
               then emit (Set_aborted None)
                      (emit (Logerr (action_name s @
                         '': Gripper error - please restart action server.'')) s)
               else s)"
  have 1: "default_effort s1 = default_effort s"
    by (simp add: s1_def)
  show ?thesis
  proof (cases "get_gripper_parameters config s1")
    case (Inl x)
    with assms get_gripper_parameters_default_effort [of config s1] 1 show ?thesis
      unfolding on_gripper_action_def Let_def s1_def [symmetric] by auto
  next
    case s2: (Inr s2)
    with get_gripper_parameters_default_effort [of config s1] 1
    have 2: "default_effort s2 = default_effort s" by simp
    show ?thesis
    proof (cases "update_feedback g (cmd_position (command goal)) s2")
      case (Inl x)
      with assms s2 update_feedback_default_effort [of g "cmd_position (command goal)" s2] 2
      show ?thesis
        unfolding on_gripper_action_def Let_def s1_def [symmetric] by auto
    next
      case s3: (Inr s3)
      with update_feedback_default_effort [of g "cmd_position (command goal)" s2] 2
      have 3: "default_effort s3 = default_effort s" by simp
      define s4 where "s4 = (if gtype s3 = ''electric''
          then emit (Set_moving_force (resolve_effort s (cmd_max_effort (command goal)))) s3
          else s3)"
      have 4: "default_effort s4 = default_effort s"
        using 3 by (simp add: s4_def)
      from assms s2 s3 have "loop (cmd_position (command goal)) start_time frames s4 = Some r"
        unfolding on_gripper_action_def Let_def s1_def [symmetric] s4_def by simp
      from loop_default_effort [OF this] 4 show ?thesis by simp
    qed
  qed
qed

text \<open>
  C3. The effort handed to the actuator is the default effort 40.0 (set by the
  constructor, lemma \<open>init_default_effort\<close>, and kept by every goal) when the magnitude of the goal's maximal effort is
  below 0.0001, it is 100.0 when the goal asks for -1.0, and the goal's own value
  otherwise; so 0.0 and 0.00005 give 40.0, -1.0 gives 100.0 and 25.0 stays 25.0.
\<close>

theorem resolve_effort_policy:
  assumes "default_effort s = 40.0"
  shows "resolve_effort s max_effort =
           (if \<bar>max_effort\<bar> < 0.0001 then 40.0
            else if max_effort = - 1.0 then 100.0
            else max_effort) \<and>
         resolve_effort s 0.0 = 40.0 \<and>
         resolve_effort s 0.00005 = 40.0 \<and>
         resolve_effort s (- 1.0) = 100.0 \<and>
         resolve_effort s 25.0 = 25.0"
  using assms by (simp add: resolve_effort_def)

theorem resolve_effort_policy_witness:
  "default_effort (left_server ''electric'') = 40.0 \<and>
   resolve_effort (left_server ''electric'') 0.00005 = 40.0 \<and>
   resolve_effort (left_server ''electric'') (- 1.0) = 100.0 \<and>
   resolve_effort (left_server ''electric'') 25.0 = 25.0"
proof -
  have h: "default_effort (left_server ''electric'') = 40.0"
    by (simp add: left_server_def)
  show ?thesis
    using h resolve_effort_policy [OF h, of 0] by simp
qed

subsection \<open>Convergence of an electric gripper\<close>

text \<open>
  C4. For an electric gripper whose reading reports a moving force \<open>m\<close>,
  \<^verbatim>\<open>check_state\<close> is true exactly when the force reported exceeds \<open>m\<close> or the
  position reported is closer to the target than the dead band. At a pass of the loop
  where it is true the callback returns at once, having reported Succeeded with the
  feedback just computed (the force alone is enough, \<open>fb_reached_goal\<close> may be
  false); where it is false the loop goes on and no outcome is reported. \<open>s\<close> is the
  state at the start of any pass.
\<close>

theorem electric_convergence:
  assumes "gtype s = ''electric''"
    and "g_parameters (gripper_of f) ''moving_force'' = Some m"
  shows "check_state (gripper_of f) position s =
           Inr (Some (g_force (gripper_of f) > m \<or>
                      \<bar>g_position (gripper_of f) - position\<bar> < dead_band s)) \<and>
         ((now_from_start (get_time f) start_time < timeout s \<or> timeout s < 0.0) \<longrightarrow>
          (g_force (gripper_of f) > m \<or>
             \<bar>g_position (gripper_of f) - position\<bar> < dead_band s) \<longrightarrow>
          loop position start_time (f # fs) s =
            (let g = gripper_of f;
                 snapshot = \<lparr>fb_position = g_position g, fb_effort = g_force g,
                              fb_stalled = (g_force g > m),
                              fb_reached_goal = (\<bar>g_position g - position\<bar> < dead_band s)\<rparr>
             in Some (Inr (s\<lparr>feedback := snapshot, result := snapshot,
                    calls := calls s
                      @ (if is_preempt_requested f
                         then [Stop, Loginfo (action_name s @ '': Gripper Action Preempted'')]
                         else [])
                      @ [Set_succeeded snapshot]\<rparr>)))) \<and>
         ((now_from_start (get_time f) start_time < timeout s \<or> timeout s < 0.0) \<longrightarrow>
          \<not> (g_force (gripper_of f) > m \<or>
             \<bar>g_position (gripper_of f) - position\<bar> < dead_band s) \<longrightarrow>
          loop position start_time (f # fs) s =
            loop position start_time fs (ticks position [f] s) \<and>
          terminal_calls (ticks position [f] s) = terminal_calls s)"
proof (intro conjI impI)
  have c: "check_state (gripper_of f) position t =
           Inr (Some (g_force (gripper_of f) > m \<or>
                      \<bar>g_position (gripper_of f) - position\<bar> < dead_band t))"
    if "gtype t = ''electric''" for t
    using that assms(2) by (simp add: check_state_def getitem_def)
  show "check_state (gripper_of f) position s =
           Inr (Some (g_force (gripper_of f) > m \<or>
                      \<bar>g_position (gripper_of f) - position\<bar> < dead_band s))"
    using assms(1) by (rule c)
  define s1 where "s1 = (if is_preempt_requested f
               then emit (Loginfo (action_name s @ '': Gripper Action Preempted''))
                      (emit Stop s)
               else s)"
  obtain s2 where s2: "update_feedback (gripper_of f) position s1 = Inr s2"
    and s2_def: "s2 = s1\<lparr>feedback := \<lparr>fb_position = g_position (gripper_of f), fb_effort = g_force (gripper_of f),
                fb_stalled = (g_force (gripper_of f) > m),
                fb_reached_goal = (\<bar>g_position (gripper_of f) - position\<bar> < dead_band s)\<rparr>,
             result := \<lparr>fb_position = g_position (gripper_of f), fb_effort = g_force (gripper_of f),
                fb_stalled = (g_force (gripper_of f) > m),
                fb_reached_goal = (\<bar>g_position (gripper_of f) - position\<bar> < dead_band s)\<rparr>\<rparr>"
    using update_feedback_Some [OF assms(2), of position s1] assms(1) by (simp add: s1_def)
  have e2: "gtype s2 = ''electric''" "dead_band s2 = dead_band s"
    using assms(1) by (simp_all add: s2_def s1_def)
  note c2 = c [OF e2(1), unfolded e2(2)]
  have body: "loop_body position f s =
      (if g_force (gripper_of f) > m \<or> \<bar>g_position (gripper_of f) - position\<bar> < dead_band s
       then Inr (True, emit (Set_succeeded (result s2)) s2)
       else Inr (False, emit Rate_sleep (emit (Publish_feedback (feedback s2))
                    (emit (Command_position position False) s2))))"
    unfolding loop_body_def s1_def [symmetric] Let_def by (simp add: s2 c2)
  {
    assume run: "now_from_start (get_time f) start_time < timeout s \<or> timeout s < 0.0"
      and conv: "g_force (gripper_of f) > m \<or> \<bar>g_position (gripper_of f) - position\<bar> < dead_band s"
    show "loop position start_time (f # fs) s =
            (let g = gripper_of f;
                 snapshot = \<lparr>fb_position = g_position g, fb_effort = g_force g,
                              fb_stalled = (g_force g > m),
                              fb_reached_goal = (\<bar>g_position g - position\<bar> < dead_band s)\<rparr>
             in Some (Inr (s\<lparr>feedback := snapshot, result := snapshot,
                    calls := calls s
                      @ (if is_preempt_requested f
                         then [Stop, Loginfo (action_name s @ '': Gripper Action Preempted'')]
                         else [])
                      @ [Set_succeeded snapshot]\<rparr>)))"
      using run conv by (simp add: body s2_def s1_def emit_def Let_def)
  }
  {
    assume run: "now_from_start (get_time f) start_time < timeout s \<or> timeout s < 0.0"
      and conv: "\<not> (g_force (gripper_of f) > m \<or> \<bar>g_position (gripper_of f) - position\<bar> < dead_band s)"
    show "loop position start_time (f # fs) s = loop position start_time fs (ticks position [f] s)"
      using run conv by (simp add: body)
    show "terminal_calls (ticks position [f] s) = terminal_calls s"
      using conv by (simp add: body terminal_calls_def s2_def s1_def)
  }
qed

theorem electric_convergence_witness:
  "gtype (left_server ''electric'') = ''electric'' \<and>
   g_parameters (gripper_of (at_time 0.05 True (reading ''electric'' False 100 50 False)))
     ''moving_force'' = Some 40.0 \<and>
   check_state (gripper_of (at_time 0.05 True (reading ''electric'' False 100 50 False))) 0
     (left_server ''electric'') = Inr (Some True) \<and>
   map_option (map_sum fst (calls_since (left_server ''electric'')))
     (loop 0 0 [at_time 0.05 True (reading ''electric'' False 100 50 False)]
        (left_server ''electric''))
   = Some (Inr [Stop, Loginfo ''/rsdk_gripper_action_server: Gripper Action Preempted'',
                Set_succeeded \<lparr>fb_position = 100, fb_effort = 50, fb_stalled = True,
                               fb_reached_goal = False\<rparr>])"
proof -
  have h1: "gtype (left_server ''electric'') = ''electric''"
    by (simp add: left_server_def)
  have h2: "g_parameters (gripper_of (at_time 0.05 True (reading ''electric'' False 100 50 False)))
     ''moving_force'' = Some 40.0"
    by (simp add: run_defs)
  show ?thesis
    using h1 h2 electric_convergence [OF h1 h2, of 0 0 "[]"]
    by (simp add: run_defs calls_since_def)
qed

subsection \<open>Preempt requests\<close>

text \<open>
  C5. A pass of the loop calls \<^verbatim>\<open>stop()\<close> once when a preempt is requested and
  not at all otherwise. The request decides nothing else: but for the calls
  \<^verbatim>\<open>stop()\<close> and \<^verbatim>\<open>loginfo\<close>, the pass, and the whole execution of the goal, end
  as they do with the requests cleared.
\<close>

theorem preempt_only_stops_motion:
  "count_list (calls_since s (body_state (loop_body position f s))) Stop =
     (if is_preempt_requested f then 1 else 0) \<and>
   map_sum (apsnd erase) (apsnd erase) (loop_body position f s) =
     map_sum (apsnd erase) (apsnd erase) (loop_body position (no_preempt f) s) \<and>
   map_option (map_sum (apsnd erase) erase)
     (on_gripper_action goal config g start_time frames s) =
   map_option (map_sum (apsnd erase) erase)
     (on_gripper_action goal config g start_time (map no_preempt frames) s)"
proof (intro conjI)
  show "count_list (calls_since s (body_state (loop_body position f s))) Stop =
     (if is_preempt_requested f then 1 else 0)"
  proof (cases "loop_body position f s")
    case (Inl x)
    obtain e s1 where x: "x = (e, s1)" by (cases x)
    from loop_body_raised(2) [OF Inl [unfolded x]] show ?thesis
      by (simp add: Inl x calls_since_def)
  next
    case (Inr r)
    obtain b s1 where r: "r = (b, s1)" by (cases r)
    from loop_body_returned(7) [OF Inr [unfolded r]] show ?thesis
      by (simp add: Inr r calls_since_def)
  qed
  show "map_sum (apsnd erase) (apsnd erase) (loop_body position f s) =
     map_sum (apsnd erase) (apsnd erase) (loop_body position (no_preempt f) s)"
    by (rule loop_body_erase) simp
  show "map_option (map_sum (apsnd erase) erase)
     (on_gripper_action goal config g start_time frames s) =
   map_option (map_sum (apsnd erase) erase)
     (on_gripper_action goal config g start_time (map no_preempt frames) s)"
  proof -
    define s1 where "s1 = (if g_error g
               then emit (Set_aborted None)
                      (emit (Logerr (action_name s @
                         '': Gripper error - please restart action server.'')) s)
               else s)"
    show ?thesis
    proof (cases "get_gripper_parameters config s1")
      case (Inl x)
      then show ?thesis
        unfolding on_gripper_action_def Let_def s1_def [symmetric] by simp
    next
      case s2: (Inr s2)
      show ?thesis
      proof (cases "update_feedback g (cmd_position (command goal)) s2")
        case (Inl x)
        then show ?thesis
          unfolding on_gripper_action_def Let_def s1_def [symmetric] by (simp add: s2)
      next
        case s3: (Inr s3)
        define s4 where "s4 = (if gtype s3 = ''electric''
          then emit (Set_moving_force (resolve_effort s (cmd_max_effort (command goal)))) s3
          else s3)"
        have "on_gripper_action goal config g start_time fr s =
            loop (cmd_position (command goal)) start_time fr s4" for fr
          unfolding on_gripper_action_def Let_def s1_def [symmetric] s4_def by (simp add: s2 s3)
        then show ?thesis
          by (simp only: loop_erase [OF refl, of "cmd_position (command goal)" start_time frames s4])
      qed
    qed
  qed
qed

theorem preempt_only_stops_motion_witness:
  "map_option (map_sum fst (calls_since (left_server ''electric'')))
     (loop 0 0 [at_time 0.05 True (reading ''electric'' False 100 0 False),
                at_time 0.10 False (reading ''electric'' False 100 0 False),
                at_time 5.0 True (reading ''electric'' False 100 0 False)]
        (left_server ''electric''))
   = Some (Inr [Stop, Loginfo ''/rsdk_gripper_action_server: Gripper Action Preempted'',
                Command_position 0 False,
                Publish_feedback \<lparr>fb_position = 100, fb_effort = 0, fb_stalled = False,
                                  fb_reached_goal = False\<rparr>,
                Rate_sleep,
                Command_position 0 False,
                Publish_feedback \<lparr>fb_position = 100, fb_effort = 0, fb_stalled = False,
                                  fb_reached_goal = False\<rparr>,
                Rate_sleep,
                Logerr ''/rsdk_gripper_action_server: Gripper Command Not Achieved in Allotted Time'',
                Set_aborted (Some \<lparr>fb_position = 100, fb_effort = 0, fb_stalled = False,
                                    fb_reached_goal = False\<rparr>)]) \<and>
   count_list (calls_since (left_server ''electric'')
      (body_state (loop_body 0 (at_time 0.05 True (reading ''electric'' False 100 0 False))
         (left_server ''electric'')))) Stop = 1"
  using preempt_only_stops_motion
    [of "left_server ''electric''" 0 "at_time 0.05 True (reading ''electric'' False 100 0 False)"]
  by (simp add: run_defs calls_since_def)

subsection \<open>The loop condition and negative timeouts\<close>

text \<open>
  C6. The loop goes round while the clock minus the start time is below the timeout, or
  the timeout is negative: frames that satisfy this condition (and at which the goal
  has not converged) leave the loop running, and at the first frame that does not the
  code after the loop runs. With a negative timeout that code is never reached: a run
  that returns ends with \<^verbatim>\<open>set_succeeded\<close>, a run that raises has reported no
  outcome, and as long as \<^verbatim>\<open>check_state\<close> is not true (and the actuator reports a
  moving force) the loop is still running, whatever the clock says.
\<close>

theorem negative_timeout_never_times_out:
  "loop position start_time (f # fs) s =
     (if get_time f - start_time < timeout s \<or> timeout s < 0.0
      then (case loop_body position f s of
              Inl x \<Rightarrow> Some (Inl x)
            | Inr (returned, s') \<Rightarrow>
                if returned then Some (Inr s') else loop position start_time fs s')
      else Some (check_failure False position (gripper_of f) s)) \<and>
   ((\<forall>p\<in>set frames. (get_time p - start_time < timeout s \<or> timeout s < 0.0) \<and>
        g_parameters (gripper_of p) ''moving_force'' \<noteq> None \<and>
        (case check_state (gripper_of p) position s of
           Inl e \<Rightarrow> False | Inr c \<Rightarrow> \<not> truthy c)) \<longrightarrow>
    loop position start_time frames s = None) \<and>
   ((\<forall>p\<in>set pre. (get_time p - start_time < timeout s \<or> timeout s < 0.0) \<and>
        g_parameters (gripper_of p) ''moving_force'' \<noteq> None \<and>
        (case check_state (gripper_of p) position s of
           Inl e \<Rightarrow> False | Inr c \<Rightarrow> \<not> truthy c)) \<and>
    \<not> (get_time f - start_time < timeout s \<or> timeout s < 0.0) \<longrightarrow>
    loop position start_time (pre @ f # fs) s =
      Some (check_failure False position (gripper_of f) (ticks position pre s))) \<and>
   (timeout s < 0.0 \<longrightarrow>
      (\<forall>s'. loop position start_time frames s = Some (Inr s') \<longrightarrow>
         (\<exists>cs. (\<forall>x\<in>set cs. \<not> is_terminal x) \<and>
               calls s' = calls s @ cs @ [Set_succeeded (result s')])) \<and>
      (\<forall>e s'. loop position start_time frames s = Some (Inl (e, s')) \<longrightarrow>
         terminal_calls s' = terminal_calls s) \<and>
      ((\<forall>p\<in>set frames. g_parameters (gripper_of p) ''moving_force'' \<noteq> None \<and>
           (case check_state (gripper_of p) position s of
              Inl e \<Rightarrow> False | Inr c \<Rightarrow> \<not> truthy c)) \<longrightarrow>
       loop position start_time frames s = None))"
proof (intro conjI impI allI)
  show "loop position start_time (f # fs) s =
     (if get_time f - start_time < timeout s \<or> timeout s < 0.0
      then (case loop_body position f s of
              Inl x \<Rightarrow> Some (Inl x)
            | Inr (returned, s') \<Rightarrow>
                if returned then Some (Inr s') else loop position start_time fs s')
      else Some (check_failure False position (gripper_of f) s))"
    by (simp add: now_from_start_def)
next
  assume "\<forall>p\<in>set frames. (get_time p - start_time < timeout s \<or> timeout s < 0.0) \<and>
        g_parameters (gripper_of p) ''moving_force'' \<noteq> None \<and>
        (case check_state (gripper_of p) position s of
           Inl e \<Rightarrow> False | Inr c \<Rightarrow> \<not> truthy c)"
  then have "\<forall>p\<in>set frames. keeps_running position start_time s p"
    by (simp add: keeps_running_def now_from_start_def)
  then show "loop position start_time frames s = None"
    by (rule loop_keeps_running)
next
  assume a: "(\<forall>p\<in>set pre. (get_time p - start_time < timeout s \<or> timeout s < 0.0) \<and>
        g_parameters (gripper_of p) ''moving_force'' \<noteq> None \<and>
        (case check_state (gripper_of p) position s of
           Inl e \<Rightarrow> False | Inr c \<Rightarrow> \<not> truthy c)) \<and>
    \<not> (get_time f - start_time < timeout s \<or> timeout s < 0.0)"
  then have "\<forall>p\<in>set pre. keeps_running position start_time s p"
    unfolding keeps_running_def now_from_start_def by blast
  moreover from a
  have "\<not> (now_from_start (get_time f) start_time < timeout s \<or> timeout s < 0.0)"
    by (simp add: now_from_start_def)
  ultimately show "loop position start_time (pre @ f # fs) s =
      Some (check_failure False position (gripper_of f) (ticks position pre s))"
    by (rule loop_exits_on_timeout)
next
  fix s'
  assume neg: "timeout s < 0.0" and "loop position start_time frames s = Some (Inr s')"
  from loop_returned [OF this(2)] neg
  show "\<exists>cs. (\<forall>x\<in>set cs. \<not> is_terminal x) \<and>
               calls s' = calls s @ cs @ [Set_succeeded (result s')]"
    by auto
next
  fix e s'
  assume "loop position start_time frames s = Some (Inl (e, s'))"
  from loop_raised [OF this]
  show "terminal_calls s' = terminal_calls s"
    by (auto simp: terminal_calls_def filter_empty_conv)
next
  assume neg: "timeout s < 0.0"
    and "\<forall>p\<in>set frames. g_parameters (gripper_of p) ''moving_force'' \<noteq> None \<and>
           (case check_state (gripper_of p) position s of
              Inl e \<Rightarrow> False | Inr c \<Rightarrow> \<not> truthy c)"
  then have "\<forall>p\<in>set frames. keeps_running position start_time s p"
    by (simp add: keeps_running_def)
  then show "loop position start_time frames s = None"
    by (rule loop_keeps_running)
qed

theorem negative_timeout_never_times_out_witness:
  "loop 0 100 [at_time 100.5 False (reading ''electric'' False 100 0 False)]
     ((left_server ''electric'')\<lparr>timeout := 1.0\<rparr>) = None \<and>
   map_option (map_sum fst terminal_calls)
     (loop 0 100 ([at_time 100.5 False (reading ''electric'' False 100 0 False)]
                  @ at_time 101.0 False (reading ''electric'' False 100 0 False) # [])
        ((left_server ''electric'')\<lparr>timeout := 1.0\<rparr>))
   = Some (Inr [Set_aborted (Some \<lparr>fb_position = 100, fb_effort = 0, fb_stalled = False,
                                    fb_reached_goal = False\<rparr>)]) \<and>
   timeout ((left_server ''electric'')\<lparr>timeout := - 1.0\<rparr>) < 0.0 \<and>
   loop 0 100 [at_time 100.5 False (reading ''electric'' False 100 0 False),
               at_time 1000 False (reading ''electric'' False 100 0 False)]
     ((left_server ''electric'')\<lparr>timeout := - 1.0\<rparr>) = None \<and>
   map_option (map_sum fst terminal_calls)
     (loop 0 100 [at_time 1000 False (reading ''electric'' False 100 0 False),
                  at_time 2000 False (reading ''electric'' False 100 50 False)]
        ((left_server ''electric'')\<lparr>timeout := - 1.0\<rparr>))
   = Some (Inr [Set_succeeded \<lparr>fb_position = 100, fb_effort = 50, fb_stalled = True,
                               fb_reached_goal = False\<rparr>])"
proof -
  let ?far = "reading ''electric'' False 100 0 False"
  let ?srv = "(left_server ''electric'')\<lparr>timeout := 1.0\<rparr>"
  let ?neg = "(left_server ''electric'')\<lparr>timeout := - 1.0\<rparr>"
  have run: "\<forall>p\<in>set [at_time 100.5 False ?far].
      (get_time p - 100 < timeout ?srv \<or> timeout ?srv < 0.0) \<and>
        g_parameters (gripper_of p) ''moving_force'' \<noteq> None \<and>
        (case check_state (gripper_of p) 0 ?srv of
           Inl e \<Rightarrow> False | Inr c \<Rightarrow> \<not> truthy c)"
    by (simp add: run_defs)
  have stop: "\<not> (get_time (at_time 101.0 False ?far) - 100 < timeout ?srv \<or> timeout ?srv < 0.0)"
    by (simp add: at_time_def)
  have h: "timeout ?neg < 0.0"
    by simp
  have idle: "\<forall>p\<in>set [at_time 100.5 False ?far, at_time 1000 False ?far].
      g_parameters (gripper_of p) ''moving_force'' \<noteq> None \<and>
        (case check_state (gripper_of p) 0 ?neg of
           Inl e \<Rightarrow> False | Inr c \<Rightarrow> \<not> truthy c)"
    by (simp add: run_defs)
  note t1 = negative_timeout_never_times_out
      [of 0 100 "at_time 101.0 False ?far" "[]" ?srv "[at_time 100.5 False ?far]"
          "[at_time 100.5 False ?far]"]
  note t2 = negative_timeout_never_times_out
      [of 0 100 "at_time 101.0 False ?far" "[]" ?neg
          "[at_time 100.5 False ?far, at_time 1000 False ?far]" "[]"]
  have 1: "loop 0 100 [at_time 100.5 False ?far] ?srv = None"
    using t1 [THEN conjunct2, THEN conjunct1] run by (rule mp)
  have "loop 0 100 ([at_time 100.5 False ?far] @ at_time 101.0 False ?far # []) ?srv =
      Some (check_failure False 0 (gripper_of (at_time 101.0 False ?far))
        (ticks 0 [at_time 100.5 False ?far] ?srv))"
    using t1 [THEN conjunct2, THEN conjunct2, THEN conjunct1] conjI [OF run stop] by (rule mp)
  then have 2: "map_option (map_sum fst terminal_calls)
     (loop 0 100 ([at_time 100.5 False ?far] @ at_time 101.0 False ?far # []) ?srv)
   = Some (Inr [Set_aborted (Some \<lparr>fb_position = 100, fb_effort = 0, fb_stalled = False,
                                    fb_reached_goal = False\<rparr>)])"
    by (simp add: run_defs terminal_calls_def)
  have 3: "loop 0 100 [at_time 100.5 False ?far, at_time 1000 False ?far] ?neg = None"
    using t2 [THEN conjunct2, THEN conjunct2, THEN conjunct2, THEN mp, OF h,
        THEN conjunct2, THEN conjunct2] idle by (rule mp)
  have 4: "map_option (map_sum fst terminal_calls)
     (loop 0 100 [at_time 1000 False ?far,
                  at_time 2000 False (reading ''electric'' False 100 50 False)] ?neg)
   = Some (Inr [Set_succeeded \<lparr>fb_position = 100, fb_effort = 50, fb_stalled = True,
                               fb_reached_goal = False\<rparr>])"
    by (simp add: run_defs terminal_calls_def)
  from 1 2 h 3 4 show ?thesis by (intro conjI)
qed

subsection \<open>Leaving the loop on timeout\<close>

text \<open>
  C7. When the loop has gone round without \<^verbatim>\<open>check_state\<close> ever being true and its
  condition is found false at the frame \<open>f\<close>, the code after the loop runs on the
  state the loop left: it logs the error, computes the feedback once more from the
  reading of \<open>f\<close>, and reports Aborted with that feedback as the result.
\<close>

theorem timeout_aborts_with_fresh_feedback:
  assumes "\<forall>p\<in>set pre. keeps_running position start_time s p"
    and "\<not> (now_from_start (get_time f) start_time < timeout s \<or> timeout s < 0.0)"
    and "g_parameters (gripper_of f) ''moving_force'' = Some m"
  shows "loop position start_time (pre @ f # rest) s =
     Some (check_failure False position (gripper_of f) (ticks position pre s)) \<and>
     check_failure False position (gripper_of f) (ticks position pre s) =
     (let s_exit = ticks position pre s;
          g = gripper_of f;
          fresh = \<lparr>fb_position = g_position g, fb_effort = g_force g,
                   fb_stalled = (g_force g > m),
                   fb_reached_goal = (if gtype s = ''electric''
                      then \<bar>g_position g - position\<bar> < dead_band s
                      else fb_reached_goal (feedback s_exit))\<rparr>
      in Inr (s_exit\<lparr>feedback := fresh, result := fresh,
                calls := calls s_exit @
                  [Logerr (action_name s @ '': Gripper Command Not Achieved in Allotted Time''),
                   Set_aborted (Some fresh)]\<rparr>))"
proof -
  have inv: "gtype (ticks position pre s) = gtype s" "timeout (ticks position pre s) = timeout s"
    "dead_band (ticks position pre s) = dead_band s"
    "action_name (ticks position pre s) = action_name s"
    using ticks_inv [of position pre s] by simp_all
  have "loop position start_time (pre @ f # rest) s
      = loop position start_time (f # rest) (ticks position pre s)"
    using assms(1) by (rule loop_append)
  also have "\<dots> = Some (check_failure False position (gripper_of f) (ticks position pre s))"
    using assms(2) by (simp add: inv)
  finally have 1: "loop position start_time (pre @ f # rest) s =
     Some (check_failure False position (gripper_of f) (ticks position pre s))" .
  have 2: "check_failure False position (gripper_of f) (ticks position pre s) =
     (let s_exit = ticks position pre s;
          g = gripper_of f;
          fresh = \<lparr>fb_position = g_position g, fb_effort = g_force g,
                   fb_stalled = (g_force g > m),
                   fb_reached_goal = (if gtype s = ''electric''
                      then \<bar>g_position g - position\<bar> < dead_band s
                      else fb_reached_goal (feedback s_exit))\<rparr>
      in Inr (s_exit\<lparr>feedback := fresh, result := fresh,
                calls := calls s_exit @
                  [Logerr (action_name s @ '': Gripper Command Not Achieved in Allotted Time''),
                   Set_aborted (Some fresh)]\<rparr>))"
    by (simp add: check_failure_Some [OF assms(3)] inv Let_def)
  from 1 2 show ?thesis by (rule conjI)
qed

theorem timeout_aborts_with_fresh_feedback_witness:
  "keeps_running 0 0 ((left_server ''electric'')\<lparr>timeout := 1.0\<rparr>)
     (at_time 0.5 False (reading ''electric'' False 100 0 False)) \<and>
   \<not> (now_from_start (get_time (at_time 1.0 False (reading ''electric'' False 90 0 False))) 0
         < timeout ((left_server ''electric'')\<lparr>timeout := 1.0\<rparr>) \<or>
       timeout ((left_server ''electric'')\<lparr>timeout := 1.0\<rparr>) < 0.0) \<and>
   g_parameters (gripper_of (at_time 1.0 False (reading ''electric'' False 90 0 False)))
       ''moving_force'' = Some 40.0 \<and>
   map_option (map_sum fst (\<lambda>s. (result s, terminal_calls s)))
     (loop 0 0
       ([at_time 0.5 False (reading ''electric'' False 100 0 False)]
        @ at_time 1.0 False (reading ''electric'' False 90 0 False) # [])
       ((left_server ''electric'')\<lparr>timeout := 1.0\<rparr>))
   = Some (Inr (\<lparr>fb_position = 90, fb_effort = 0, fb_stalled = False, fb_reached_goal = False\<rparr>,
         [Set_aborted (Some \<lparr>fb_position = 90, fb_effort = 0, fb_stalled = False,
                               fb_reached_goal = False\<rparr>)]))"
proof -
  have h0: "keeps_running 0 0 ((left_server ''electric'')\<lparr>timeout := 1.0\<rparr>)
     (at_time 0.5 False (reading ''electric'' False 100 0 False))"
    by (simp add: keeps_running_def run_defs)
  then have h1: "\<forall>p\<in>set [at_time 0.5 False (reading ''electric'' False 100 0 False)].
       keeps_running 0 0 ((left_server ''electric'')\<lparr>timeout := 1.0\<rparr>) p"
    by simp
  have h2: "\<not> (now_from_start (get_time (at_time 1.0 False (reading ''electric'' False 90 0 False))) 0
         < timeout ((left_server ''electric'')\<lparr>timeout := 1.0\<rparr>) \<or>
       timeout ((left_server ''electric'')\<lparr>timeout := 1.0\<rparr>) < 0.0)"
    by (simp add: run_defs)
  have h3: "g_parameters (gripper_of (at_time 1.0 False (reading ''electric'' False 90 0 False)))
       ''moving_force'' = Some 40.0"
    by (simp add: run_defs)
  show ?thesis
    using h0 h2 h3 timeout_aborts_with_fresh_feedback [OF h1 h2 h3, of "[]"]
    by (simp add: run_defs terminal_calls_def)
qed

subsection \<open>The feedback computed\<close>

text \<open>
  C8. For an electric gripper the feedback is as claimed (lemma
  \<open>update_feedback_Some\<close>). For a suction gripper \<open>fb_reached_goal\<close> is to be what
  \<^verbatim>\<open>gripping()\<close> reports. The code calls \<^verbatim>\<open>gripping()\<close> and drops the value (line
  121): below the actuator reports that it grips, and \<open>fb_reached_goal\<close> stays false.
\<close>

theorem suction_feedback_drops_gripping:
  "g_gripping (reading ''suction'' False 0 0 True) \<and>
   update_feedback (reading ''suction'' False 0 0 True) 0 (left_server ''suction'')
   = Inr ((left_server ''suction'')
           \<lparr>feedback := \<lparr>fb_position = 0, fb_effort = 0, fb_stalled = False,
                          fb_reached_goal = False\<rparr>,
            result := \<lparr>fb_position = 0, fb_effort = 0, fb_stalled = False,
                        fb_reached_goal = False\<rparr>\<rparr>)"
  by (simp add: run_defs)

text \<open>
  C9. Computing the feedback a second time from the same reading and target leaves the
  state as the first computation left it, also when the computation raises; and two
  servers of the same type and dead band compute the same feedback and result from the
  same reading (for a type other than electric, given the same \<open>fb_reached_goal\<close> before,
  which that computation does not assign).
\<close>

theorem update_feedback_idempotent:
  "(update_feedback g position s = Inr s' \<longrightarrow> update_feedback g position s' = Inr s') \<and>
   (update_feedback g position s = Inl (e, s') \<longrightarrow> update_feedback g position s' = Inl (e, s')) \<and>
   (gtype t = gtype s \<and> dead_band t = dead_band s \<and>
    (gtype s = ''electric'' \<or> fb_reached_goal (feedback t) = fb_reached_goal (feedback s)) \<and>
    update_feedback g position s = Inr s' \<and> update_feedback g position t = Inr t' \<longrightarrow>
    feedback t' = feedback s' \<and> result t' = result s')"
proof (intro conjI impI)
  assume "update_feedback g position s = Inr s'"
  then show "update_feedback g position s' = Inr s'"
    by (rule update_feedback_idem)
next
  assume "update_feedback g position s = Inl (e, s')"
  then show "update_feedback g position s' = Inl (e, s')"
    by (rule update_feedback_idem2)
next
  assume a: "gtype t = gtype s \<and> dead_band t = dead_band s \<and>
    (gtype s = ''electric'' \<or> fb_reached_goal (feedback t) = fb_reached_goal (feedback s)) \<and>
    update_feedback g position s = Inr s' \<and> update_feedback g position t = Inr t'"
  show "feedback t' = feedback s'" "result t' = result s'"
    using a
    by (cases "g_parameters g ''moving_force''";
        auto simp: update_feedback_Some update_feedback_None)+
qed

theorem update_feedback_idempotent_witness:
  "update_feedback (reading ''electric'' False 3 10 False) 0 (left_server ''electric'') =
     Inr ((left_server ''electric'')
           \<lparr>feedback := \<lparr>fb_position = 3, fb_effort = 10, fb_stalled = False,
                          fb_reached_goal = True\<rparr>,
            result := \<lparr>fb_position = 3, fb_effort = 10, fb_stalled = False,
                        fb_reached_goal = True\<rparr>\<rparr>) \<and>
   update_feedback (reading ''electric'' False 3 10 False) 0
     ((left_server ''electric'')
           \<lparr>feedback := \<lparr>fb_position = 3, fb_effort = 10, fb_stalled = False,
                          fb_reached_goal = True\<rparr>,
            result := \<lparr>fb_position = 3, fb_effort = 10, fb_stalled = False,
                        fb_reached_goal = True\<rparr>\<rparr>) =
     Inr ((left_server ''electric'')
           \<lparr>feedback := \<lparr>fb_position = 3, fb_effort = 10, fb_stalled = False,
                          fb_reached_goal = True\<rparr>,
            result := \<lparr>fb_position = 3, fb_effort = 10, fb_stalled = False,
                        fb_reached_goal = True\<rparr>\<rparr>)"
proof -
  have h: "update_feedback (reading ''electric'' False 3 10 False) 0 (left_server ''electric'') =
     Inr ((left_server ''electric'')
           \<lparr>feedback := \<lparr>fb_position = 3, fb_effort = 10, fb_stalled = False,
                          fb_reached_goal = True\<rparr>,
            result := \<lparr>fb_position = 3, fb_effort = 10, fb_stalled = False,
                        fb_reached_goal = True\<rparr>\<rparr>)"
    by (simp add: run_defs)
  from update_feedback_idempotent [THEN conjunct1, rule_format, OF h] h
  show ?thesis by (rule_tac conjI)
qed

subsection \<open>Suction grippers\<close>




end
